theory Spec2Isabelle
  imports Complex_Main "HOL-Library.Log_Nat" "HOL-Library.Multiset" "HOL-Library.Monad_Syntax"
begin

section \<open>Floating-point values\<close>

text \<open>
  The notebooks work on NumPy arrays of IEEE floating-point numbers. A value is either a
  finite number, carried as an exact rational, or one of the three non-finite values.
  Signed zeros are not distinguished (NumPy compares them equal).
\<close>

datatype fval = Num rat | PosInf | NegInf | NaN

text \<open>\<^verbatim>\<open>np.isfinite\<close>\<close>

fun isfinite :: "fval \<Rightarrow> bool" where
  "isfinite (Num r) = True"
| "isfinite v = False"

text \<open>The comparison \<^verbatim>\<open>a > b\<close> of two floats: false as soon as one side is NaN.\<close>

fun fgt :: "fval \<Rightarrow> fval \<Rightarrow> bool" where
  "fgt (Num a) (Num b) = (b < a)"
| "fgt (Num a) NegInf = True"
| "fgt PosInf (Num b) = True"
| "fgt PosInf NegInf = True"
| "fgt a b = False"

subsection \<open>Rounding to binary64\<close>

text \<open>
  The accumulators are created by \<^verbatim>\<open>np.zeros\<close>, hence hold float64 (IEEE binary64)
  numbers, and \<^verbatim>\<open>+=\<close> on them is binary64 addition: the exact sum rounded to the nearest
  representable number, ties to the even significand. \<open>pow2 k\<close> is \<open>2\<^sup>k\<close>,
  \<open>ilog2 x\<close> is the binary exponent \<open>\<lfloor>log\<^sub>2 \<bar>x\<bar>\<rfloor>\<close> of a non-zero \<open>x\<close>. A binary64
  number with exponent \<open>e\<close> is a multiple of \<open>2\<^bsup>e - 52\<^esup>\<close> (53 significant bits), and of
  \<open>2\<^bsup>-1074\<^esup>\<close> in the subnormal range; a rounded result of exponent 1024 or more
  overflows to an infinity.
\<close>

definition pow2 :: "int \<Rightarrow> rat" where
  "pow2 k = (if 0 \<le> k then 2 ^ nat k else 1 / 2 ^ nat (- k))"

definition ilog2 :: "rat \<Rightarrow> int" where
  "ilog2 x = (case quotient_of \<bar>x\<bar> of (a, b) \<Rightarrow>
     (let k = bitlen a - bitlen b
      in if pow2 k \<le> \<bar>x\<bar> then k else k - 1))"

definition round_half_even :: "rat \<Rightarrow> int" where
  "round_half_even q = (let f = \<lfloor>q\<rfloor>; d = q - of_int f
     in if d < 1 / 2 then f else if 1 / 2 < d then f + 1
        else if even f then f else f + 1)"

definition round64 :: "rat \<Rightarrow> fval" where
  "round64 x = (if x = 0 then Num 0 else
     (let u = pow2 (max (ilog2 x - 52) (- 1074));
          y = of_int (round_half_even (x / u)) * u
      in if 1024 \<le> ilog2 y then (if 0 < x then PosInf else NegInf) else Num y))"

text \<open>binary64 addition, as \<^verbatim>\<open>Q1[blidx] += prval\<close> performs it.\<close>

fun fadd :: "fval \<Rightarrow> fval \<Rightarrow> fval" where
  "fadd (Num a) (Num b) = round64 (a + b)"
| "fadd NaN y = NaN"
| "fadd x NaN = NaN"
| "fadd PosInf NegInf = NaN"
| "fadd NegInf PosInf = NaN"
| "fadd PosInf y = PosInf"
| "fadd x PosInf = PosInf"
| "fadd NegInf y = NegInf"
| "fadd x NegInf = NegInf"

text \<open>binary64 squaring, \<^verbatim>\<open>prval**2\<close> in the earlier revision of the kernel.\<close>

fun fsquare :: "fval \<Rightarrow> fval" where
  "fsquare (Num a) = round64 (a * a)"
| "fsquare NaN = NaN"
| "fsquare v = PosInf"

subsection \<open>Exact arithmetic\<close>





section \<open>The accumulation kernel\<close>

text \<open>
  \<^verbatim>\<open>fast_binned_stats(blidxs,capeidxs,subsatidxs,prdata,nblbins,ncapebins,nsubsatbins,prthresh)\<close>
  of \<^verbatim>\<open>V2_4_calc_save_binned_stats.ipynb\<close>. The six arrays it returns are the fields of a
  record. The counts \<open>Q0\<close>, \<open>QE\<close>, \<open>P0\<close>, \<open>PE\<close> are float64 numbers that only ever
  grow by 1 from 0; binary64 represents every integer up to \<open>2\<^sup>5\<^sup>3\<close> exactly, and the
  arrays that the kernel receives have far fewer elements than that, so the counts are
  natural numbers here. The sums \<open>Q1\<close>, \<open>P1\<close> are float64 numbers. The two-dimensional
  arrays are lists of rows, the row index being the \<open>subsat\<close> bin. The index arrays hold
  32-bit integers (64-bit ones in the earlier revision); the kernel only compares them and
  indexes with them, so they are integers here.
\<close>

record stats =
  Q0 :: "nat list"
  QE :: "nat list"
  Q1 :: "fval list"
  P0 :: "nat list list"
  PE :: "nat list list"
  P1 :: "fval list list"

text \<open>One point: \<open>(blidx, capeidx, subsatidx, prval)\<close>, as read at the top of the loop body.\<close>

type_synonym point = "int \<times> int \<times> int \<times> fval"

definition zero_stats :: "nat \<Rightarrow> nat \<Rightarrow> nat \<Rightarrow> stats" where
  "zero_stats nblbins ncapebins nsubsatbins =
     \<lparr>Q0 = replicate nblbins 0, QE = replicate nblbins 0, Q1 = replicate nblbins (Num 0),
      P0 = replicate nsubsatbins (replicate ncapebins 0),
      PE = replicate nsubsatbins (replicate ncapebins 0),
      P1 = replicate nsubsatbins (replicate ncapebins (Num 0))\<rparr>"

text \<open>\<^verbatim>\<open>A[i] += ...\<close> and \<^verbatim>\<open>A[a,b] += ...\<close> as read-modify-write of one cell.\<close>

definition upd1 :: "'a list \<Rightarrow> nat \<Rightarrow> ('a \<Rightarrow> 'a) \<Rightarrow> 'a list" where
  "upd1 A i f = A[i := f (A ! i)]"

definition upd2 :: "'a list list \<Rightarrow> nat \<Rightarrow> nat \<Rightarrow> ('a \<Rightarrow> 'a) \<Rightarrow> 'a list list" where
  "upd2 A a b f = A[a := upd1 (A ! a) b f]"

text \<open>
  The loop body after the four reads. The addition used for the sums is a parameter, so
  that the kernel can be compared with its exact-arithmetic counterpart; the notebook's
  kernel is the instance \<open>fadd\<close>.
\<close>

definition accumulate ::
  "(fval \<Rightarrow> fval \<Rightarrow> fval) \<Rightarrow> nat \<Rightarrow> nat \<Rightarrow> nat \<Rightarrow> fval \<Rightarrow> point \<Rightarrow> stats \<Rightarrow> stats" where
  "accumulate add nblbins ncapebins nsubsatbins prthresh p s =
     (case p of (blidx, capeidx, subsatidx, prval) \<Rightarrow>
       (let s1 =
          (if 0 \<le> blidx \<and> blidx < int nblbins \<and> isfinite prval
           then s\<lparr>Q0 := upd1 (Q0 s) (nat blidx) (\<lambda>c. c + 1),
                  Q1 := upd1 (Q1 s) (nat blidx) (\<lambda>x. add x prval),
                  QE := (if fgt prval prthresh
                         then upd1 (QE s) (nat blidx) (\<lambda>c. c + 1) else QE s)\<rparr>
           else s)
        in
          (if 0 \<le> subsatidx \<and> subsatidx < int nsubsatbins \<and>
              0 \<le> capeidx \<and> capeidx < int ncapebins \<and> isfinite prval
           then s1\<lparr>P0 := upd2 (P0 s1) (nat subsatidx) (nat capeidx) (\<lambda>c. c + 1),
                   P1 := upd2 (P1 s1) (nat subsatidx) (nat capeidx) (\<lambda>x. add x prval),
                   PE := (if fgt prval prthresh
                          then upd2 (PE s1) (nat subsatidx) (nat capeidx) (\<lambda>c. c + 1)
                          else PE s1)\<rparr>
           else s1)))"

text \<open>
  The points in loop order: \<^verbatim>\<open>for i in range(prdata.size)\<close> reads position \<open>i\<close> of the
  flattened view of each of the four arrays. The notebook passes four arrays of one shape;
  what is read from an index array shorter than \<^verbatim>\<open>prdata\<close> is left open.
\<close>

definition points :: "int list \<Rightarrow> int list \<Rightarrow> int list \<Rightarrow> fval list \<Rightarrow> point list" where
  "points blidxs capeidxs subsatidxs prdata =
     map (\<lambda>i. (blidxs ! i, capeidxs ! i, subsatidxs ! i, prdata ! i)) [0..<length prdata]"

definition accumulate_all ::
  "(fval \<Rightarrow> fval \<Rightarrow> fval) \<Rightarrow> nat \<Rightarrow> nat \<Rightarrow> nat \<Rightarrow> fval \<Rightarrow> point list \<Rightarrow> stats" where
  "accumulate_all add nblbins ncapebins nsubsatbins prthresh ps =
     fold (accumulate add nblbins ncapebins nsubsatbins prthresh) ps
       (zero_stats nblbins ncapebins nsubsatbins)"

definition binned_stats_with ::
  "(fval \<Rightarrow> fval \<Rightarrow> fval) \<Rightarrow> int list \<Rightarrow> int list \<Rightarrow> int list \<Rightarrow> fval list \<Rightarrow>
     nat \<Rightarrow> nat \<Rightarrow> nat \<Rightarrow> fval \<Rightarrow> stats" where
  "binned_stats_with add blidxs capeidxs subsatidxs prdata nblbins ncapebins nsubsatbins prthresh =
     accumulate_all add nblbins ncapebins nsubsatbins prthresh
       (points blidxs capeidxs subsatidxs prdata)"

definition fast_binned_stats ::
  "int list \<Rightarrow> int list \<Rightarrow> int list \<Rightarrow> fval list \<Rightarrow> nat \<Rightarrow> nat \<Rightarrow> nat \<Rightarrow> fval \<Rightarrow> stats" where
  "fast_binned_stats = binned_stats_with fadd"

text \<open>The points that reach cell \<open>i\<close> of the 1-D arrays, and cell \<open>(a, b)\<close> of the 2-D ones.\<close>

definition hits1 :: "nat \<Rightarrow> point \<Rightarrow> bool" where
  "hits1 i p = (case p of (blidx, capeidx, subsatidx, prval) \<Rightarrow> blidx = int i \<and> isfinite prval)"

definition hits2 :: "nat \<Rightarrow> nat \<Rightarrow> point \<Rightarrow> bool" where
  "hits2 a b p = (case p of (blidx, capeidx, subsatidx, prval) \<Rightarrow>
     subsatidx = int a \<and> capeidx = int b \<and> isfinite prval)"

definition prval_of :: "point \<Rightarrow> fval" where
  "prval_of p = (case p of (blidx, capeidx, subsatidx, prval) \<Rightarrow> prval)"

definition exceeds :: "fval \<Rightarrow> point \<Rightarrow> bool" where
  "exceeds prthresh p = fgt (prval_of p) prthresh"

text \<open>The running sum of a list of values, starting from the zero the array is created with.\<close>

definition running_sum :: "(fval \<Rightarrow> fval \<Rightarrow> fval) \<Rightarrow> fval list \<Rightarrow> fval" where
  "running_sum add vs = fold (\<lambda>v acc. add acc v) vs (Num 0)"

text \<open>The shape every result has: the lengths the arrays are created with.\<close>

definition shaped :: "nat \<Rightarrow> nat \<Rightarrow> nat \<Rightarrow> 'a stats_scheme \<Rightarrow> bool" where
  "shaped nblbins ncapebins nsubsatbins s \<longleftrightarrow>
     length (Q0 s) = nblbins \<and> length (QE s) = nblbins \<and> length (Q1 s) = nblbins \<and>
     length (P0 s) = nsubsatbins \<and> length (PE s) = nsubsatbins \<and> length (P1 s) = nsubsatbins \<and>
     list_all (\<lambda>r. length r = ncapebins) (P0 s) \<and>
     list_all (\<lambda>r. length r = ncapebins) (PE s) \<and>
     list_all (\<lambda>r. length r = ncapebins) (P1 s)"


text \<open>The points that pass the 1-D guard, and those that pass the 2-D guard.\<close>

definition valid1 :: "nat \<Rightarrow> point \<Rightarrow> bool" where
  "valid1 nblbins p = (case p of (blidx, capeidx, subsatidx, prval) \<Rightarrow>
     0 \<le> blidx \<and> blidx < int nblbins \<and> isfinite prval)"

definition valid2 :: "nat \<Rightarrow> nat \<Rightarrow> point \<Rightarrow> bool" where
  "valid2 ncapebins nsubsatbins p = (case p of (blidx, capeidx, subsatidx, prval) \<Rightarrow>
     0 \<le> subsatidx \<and> subsatidx < int nsubsatbins \<and>
     0 \<le> capeidx \<and> capeidx < int ncapebins \<and> isfinite prval)"

subsection \<open>The kernel with checked array accesses\<close>

text \<open>
  The same loop, where a read-modify-write of an array cell fails (\<open>None\<close>) unless the
  index lies in \<open>0 \<le> i < length\<close>. (NumPy would also accept a negative index down to
  \<open>- length\<close> and count from the end; the compiled kernel does not check at all.)
\<close>

definition upd1_chk :: "'a list \<Rightarrow> int \<Rightarrow> ('a \<Rightarrow> 'a) \<Rightarrow> 'a list option" where
  "upd1_chk A i f =
     (if 0 \<le> i \<and> i < int (length A) then Some (A[nat i := f (A ! nat i)]) else None)"

definition upd2_chk :: "'a list list \<Rightarrow> int \<Rightarrow> int \<Rightarrow> ('a \<Rightarrow> 'a) \<Rightarrow> 'a list list option" where
  "upd2_chk A a b f =
     (if 0 \<le> a \<and> a < int (length A)
      then map_option (\<lambda>r. A[nat a := r]) (upd1_chk (A ! nat a) b f)
      else None)"

definition accumulate_chk ::
  "(fval \<Rightarrow> fval \<Rightarrow> fval) \<Rightarrow> nat \<Rightarrow> nat \<Rightarrow> nat \<Rightarrow> fval \<Rightarrow> point \<Rightarrow> stats \<Rightarrow> stats option" where
  "accumulate_chk add nblbins ncapebins nsubsatbins prthresh p s =
     (case p of (blidx, capeidx, subsatidx, prval) \<Rightarrow>
       do {
         s1 \<leftarrow>
           (if 0 \<le> blidx \<and> blidx < int nblbins \<and> isfinite prval
            then do {
              q0 \<leftarrow> upd1_chk (Q0 s) blidx (\<lambda>c. c + 1);
              q1 \<leftarrow> upd1_chk (Q1 s) blidx (\<lambda>x. add x prval);
              qe \<leftarrow> (if fgt prval prthresh
                     then upd1_chk (QE s) blidx (\<lambda>c. c + 1) else Some (QE s));
              Some (s\<lparr>Q0 := q0, Q1 := q1, QE := qe\<rparr>) }
            else Some s);
         (if 0 \<le> subsatidx \<and> subsatidx < int nsubsatbins \<and>
             0 \<le> capeidx \<and> capeidx < int ncapebins \<and> isfinite prval
          then do {
            p0 \<leftarrow> upd2_chk (P0 s1) subsatidx capeidx (\<lambda>c. c + 1);
            p1 \<leftarrow> upd2_chk (P1 s1) subsatidx capeidx (\<lambda>x. add x prval);
            pe \<leftarrow> (if fgt prval prthresh
                   then upd2_chk (PE s1) subsatidx capeidx (\<lambda>c. c + 1) else Some (PE s1));
            Some (s1\<lparr>P0 := p0, P1 := p1, PE := pe\<rparr>) }
          else Some s1) })"

text \<open>A loop whose body may fail stops at the first failure.\<close>

fun fold_chk :: "('a \<Rightarrow> 's \<Rightarrow> 's option) \<Rightarrow> 'a list \<Rightarrow> 's \<Rightarrow> 's option" where
  "fold_chk f [] s = Some s"
| "fold_chk f (x # xs) s = (case f x s of None \<Rightarrow> None | Some s' \<Rightarrow> fold_chk f xs s')"

definition fast_binned_stats_chk ::
  "int list \<Rightarrow> int list \<Rightarrow> int list \<Rightarrow> fval list \<Rightarrow> nat \<Rightarrow> nat \<Rightarrow> nat \<Rightarrow> fval \<Rightarrow> stats option" where
  "fast_binned_stats_chk blidxs capeidxs subsatidxs prdata nblbins ncapebins nsubsatbins prthresh =
     fold_chk (accumulate_chk fadd nblbins ncapebins nsubsatbins prthresh)
       (points blidxs capeidxs subsatidxs prdata) (zero_stats nblbins ncapebins nsubsatbins)"

section \<open>The earlier revision of the kernel\<close>

text \<open>
  The loop of \<^verbatim>\<open>calc_binned_stats\<close> in \<^verbatim>\<open>3_copy_calc_save_stats-checkpoint.ipynb\<close>: three
  nested iterations over time, latitude and longitude, the arrays indexed by the triple. It
  also accumulates the sums of squares \<open>Q2\<close> and \<open>P2\<close>. A three-dimensional array is
  given by its shape and its elements in row-major order, so that element
  \<open>[timeidx, latidx, lonidx]\<close> of an array with \<open>nlat\<close> latitudes and \<open>nlon\<close> longitudes
  is at position \<open>(timeidx * nlat + latidx) * nlon + lonidx\<close> of the list, the position
  at which \<^verbatim>\<open>.flat\<close> finds it.
\<close>

record stats2 = stats +
  Q2 :: "fval list"
  P2 :: "fval list list"

definition zero_stats2 :: "nat \<Rightarrow> nat \<Rightarrow> nat \<Rightarrow> stats2" where
  "zero_stats2 nblbins ncapebins nsubsatbins =
     \<lparr>Q0 = replicate nblbins 0, QE = replicate nblbins 0, Q1 = replicate nblbins (Num 0),
      P0 = replicate nsubsatbins (replicate ncapebins 0),
      PE = replicate nsubsatbins (replicate ncapebins 0),
      P1 = replicate nsubsatbins (replicate ncapebins (Num 0)),
      Q2 = replicate nblbins (Num 0),
      P2 = replicate nsubsatbins (replicate ncapebins (Num 0))\<rparr>"

definition at3 :: "nat \<Rightarrow> nat \<Rightarrow> 'a list \<Rightarrow> nat \<Rightarrow> nat \<Rightarrow> nat \<Rightarrow> 'a" where
  "at3 nlat nlon A timeidx latidx lonidx = A ! ((timeidx * nlat + latidx) * nlon + lonidx)"

definition accumulate2 :: "nat \<Rightarrow> nat \<Rightarrow> nat \<Rightarrow> fval \<Rightarrow> point \<Rightarrow> stats2 \<Rightarrow> stats2" where
  "accumulate2 nblbins ncapebins nsubsatbins prthresh p s =
     (case p of (blidx, capeidx, subsatidx, prval) \<Rightarrow>
       (let validpr = isfinite prval;
            validbl = (0 \<le> blidx \<and> blidx < int nblbins);
            validcape = (0 \<le> capeidx \<and> capeidx < int ncapebins);
            validsubsat = (0 \<le> subsatidx \<and> subsatidx < int nsubsatbins);
            s1 =
              (if validbl \<and> validpr
               then s\<lparr>Q0 := upd1 (Q0 s) (nat blidx) (\<lambda>c. c + 1),
                      Q1 := upd1 (Q1 s) (nat blidx) (\<lambda>x. fadd x prval),
                      Q2 := upd1 (Q2 s) (nat blidx) (\<lambda>x. fadd x (fsquare prval)),
                      QE := (if fgt prval prthresh
                             then upd1 (QE s) (nat blidx) (\<lambda>c. c + 1) else QE s)\<rparr>
               else s)
        in
          (if validcape \<and> validsubsat \<and> validpr
           then s1\<lparr>P0 := upd2 (P0 s1) (nat subsatidx) (nat capeidx) (\<lambda>c. c + 1),
                   P1 := upd2 (P1 s1) (nat subsatidx) (nat capeidx) (\<lambda>x. fadd x prval),
                   P2 := upd2 (P2 s1) (nat subsatidx) (nat capeidx) (\<lambda>x. fadd x (fsquare prval)),
                   PE := (if fgt prval prthresh
                          then upd2 (PE s1) (nat subsatidx) (nat capeidx) (\<lambda>c. c + 1)
                          else PE s1)\<rparr>
           else s1)))"

definition point_at ::
  "nat \<Rightarrow> nat \<Rightarrow> int list \<Rightarrow> int list \<Rightarrow> int list \<Rightarrow> fval list \<Rightarrow> nat \<Rightarrow> nat \<Rightarrow> nat \<Rightarrow> point" where
  "point_at nlat nlon blidxs capeidxs subsatidxs prdata timeidx latidx lonidx =
     (at3 nlat nlon blidxs timeidx latidx lonidx, at3 nlat nlon capeidxs timeidx latidx lonidx,
      at3 nlat nlon subsatidxs timeidx latidx lonidx, at3 nlat nlon prdata timeidx latidx lonidx)"

definition calc_binned_stats_loop ::
  "nat \<Rightarrow> nat \<Rightarrow> nat \<Rightarrow> int list \<Rightarrow> int list \<Rightarrow> int list \<Rightarrow> fval list \<Rightarrow>
     nat \<Rightarrow> nat \<Rightarrow> nat \<Rightarrow> fval \<Rightarrow> stats2" where
  "calc_binned_stats_loop ntime nlat nlon blidxs capeidxs subsatidxs prdata
       nblbins ncapebins nsubsatbins prthresh =
     fold (\<lambda>timeidx. fold (\<lambda>latidx. fold (\<lambda>lonidx.
             accumulate2 nblbins ncapebins nsubsatbins prthresh
               (point_at nlat nlon blidxs capeidxs subsatidxs prdata timeidx latidx lonidx))
           [0..<nlon]) [0..<nlat]) [0..<ntime]
       (zero_stats2 nblbins ncapebins nsubsatbins)"

text \<open>The earlier loop with checked array accesses.\<close>

definition accumulate2_chk ::
  "nat \<Rightarrow> nat \<Rightarrow> nat \<Rightarrow> fval \<Rightarrow> point \<Rightarrow> stats2 \<Rightarrow> stats2 option" where
  "accumulate2_chk nblbins ncapebins nsubsatbins prthresh p s =
     (case p of (blidx, capeidx, subsatidx, prval) \<Rightarrow>
       (let validpr = isfinite prval;
            validbl = (0 \<le> blidx \<and> blidx < int nblbins);
            validcape = (0 \<le> capeidx \<and> capeidx < int ncapebins);
            validsubsat = (0 \<le> subsatidx \<and> subsatidx < int nsubsatbins)
        in do {
          s1 \<leftarrow>
            (if validbl \<and> validpr
             then do {
               q0 \<leftarrow> upd1_chk (Q0 s) blidx (\<lambda>c. c + 1);
               q1 \<leftarrow> upd1_chk (Q1 s) blidx (\<lambda>x. fadd x prval);
               q2 \<leftarrow> upd1_chk (Q2 s) blidx (\<lambda>x. fadd x (fsquare prval));
               qe \<leftarrow> (if fgt prval prthresh
                      then upd1_chk (QE s) blidx (\<lambda>c. c + 1) else Some (QE s));
               Some (s\<lparr>Q0 := q0, Q1 := q1, Q2 := q2, QE := qe\<rparr>) }
             else Some s);
          (if validcape \<and> validsubsat \<and> validpr
           then do {
             p0 \<leftarrow> upd2_chk (P0 s1) subsatidx capeidx (\<lambda>c. c + 1);
             p1 \<leftarrow> upd2_chk (P1 s1) subsatidx capeidx (\<lambda>x. fadd x prval);
             p2 \<leftarrow> upd2_chk (P2 s1) subsatidx capeidx (\<lambda>x. fadd x (fsquare prval));
             pe \<leftarrow> (if fgt prval prthresh
                    then upd2_chk (PE s1) subsatidx capeidx (\<lambda>c. c + 1) else Some (PE s1));
             Some (s1\<lparr>P0 := p0, P1 := p1, P2 := p2, PE := pe\<rparr>) }
           else Some s1) }))"

definition calc_binned_stats_loop_chk ::
  "nat \<Rightarrow> nat \<Rightarrow> nat \<Rightarrow> int list \<Rightarrow> int list \<Rightarrow> int list \<Rightarrow> fval list \<Rightarrow>
     nat \<Rightarrow> nat \<Rightarrow> nat \<Rightarrow> fval \<Rightarrow> stats2 option" where
  "calc_binned_stats_loop_chk ntime nlat nlon blidxs capeidxs subsatidxs prdata
       nblbins ncapebins nsubsatbins prthresh =
     fold_chk (\<lambda>timeidx. fold_chk (\<lambda>latidx. fold_chk (\<lambda>lonidx.
             accumulate2_chk nblbins ncapebins nsubsatbins prthresh
               (point_at nlat nlon blidxs capeidxs subsatidxs prdata timeidx latidx lonidx))
           [0..<nlon]) [0..<nlat]) [0..<ntime]
       (zero_stats2 nblbins ncapebins nsubsatbins)"

definition shaped2 :: "nat \<Rightarrow> nat \<Rightarrow> nat \<Rightarrow> stats2 \<Rightarrow> bool" where
  "shaped2 nblbins ncapebins nsubsatbins s \<longleftrightarrow>
     shaped nblbins ncapebins nsubsatbins s \<and> length (Q2 s) = nblbins \<and>
     length (P2 s) = nsubsatbins \<and> list_all (\<lambda>r. length r = ncapebins) (P2 s)"


text \<open>The six arrays that both revisions return.\<close>

definition shared :: "stats2 \<Rightarrow> stats" where
  "shared s = \<lparr>Q0 = Q0 s, QE = QE s, Q1 = Q1 s, P0 = P0 s, PE = PE s, P1 = P1 s\<rparr>"


section \<open>Chunks and merging\<close>






definition merge_stats :: "(fval \<Rightarrow> fval \<Rightarrow> fval) \<Rightarrow> stats \<Rightarrow> stats \<Rightarrow> stats" where
  "merge_stats add s t =
     \<lparr>Q0 = map2 (+) (Q0 s) (Q0 t), QE = map2 (+) (QE s) (QE t), Q1 = map2 add (Q1 s) (Q1 t),
      P0 = map2 (map2 (+)) (P0 s) (P0 t), PE = map2 (map2 (+)) (PE s) (PE t),
      P1 = map2 (map2 add) (P1 s) (P1 t)\<rparr>"





section \<open>Bin specifications, edges and indices\<close>






















section \<open>Datasets and their subsets\<close>

text \<open>
  An \<^verbatim>\<open>xarray.Dataset\<close> as the notebook uses it: the coordinates \<^verbatim>\<open>time\<close>, \<^verbatim>\<open>lat\<close>,
  \<^verbatim>\<open>lon\<close> and the four variables \<^verbatim>\<open>bl\<close>, \<^verbatim>\<open>cape\<close>, \<^verbatim>\<open>subsat\<close>, \<^verbatim>\<open>pr\<close>, each an
  array over (time, lat, lon), given as a list of planes, a plane being a list of rows.
  Of a time stamp only the calendar month is ever looked at.
\<close>

datatype timestamp = Timestamp (year: int) (month: int) (day: int)

record dataset =
  time :: "timestamp list"
  lat :: "rat list"
  lon :: "rat list"
  bl :: "fval list list list"
  cape :: "fval list list list"
  subsat :: "fval list list list"
  pr :: "fval list list list"









section \<open>Building one statistics record\<close>




section \<open>Aggregating by region and month\<close>









section \<open>Shape of the result\<close>

lemma shaped_zero: "shaped nb nc ns (zero_stats nb nc ns)"
  by (simp add: shaped_def zero_stats_def list_all_iff)

lemma list_all_upd2:
  "list_all (\<lambda>r. length r = n) A \<Longrightarrow> list_all (\<lambda>r. length r = n) (upd2 A a b f)"
proof -
  assume A: "list_all (\<lambda>r. length r = n) A"
  have "length (upd2 A a b f ! i) = n" if "i < length A" for i
    using A that by (cases "i = a") (simp_all add: upd2_def upd1_def list_all_length)
  then show ?thesis
    by (simp add: list_all_length upd2_def)
qed

lemma length_upd2: "length (upd2 A a b f) = length A"
  by (simp add: upd2_def)

lemma shaped_accumulate:
  "shaped nb nc ns s \<Longrightarrow> shaped nb nc ns (accumulate add nb nc ns th p s)"
  by (cases p) (auto simp: shaped_def accumulate_def Let_def upd1_def list_all_upd2 length_upd2)

lemma shaped_fold:
  "shaped nb nc ns s \<Longrightarrow> shaped nb nc ns (fold (accumulate add nb nc ns th) ps s)"
  by (induction ps arbitrary: s) (simp_all add: shaped_accumulate)

lemma shaped_accumulate_all: "shaped nb nc ns (accumulate_all add nb nc ns th ps)"
  by (simp add: accumulate_all_def shaped_fold shaped_zero)

section \<open>What each cell holds after the loop\<close>

lemma nth_upd1: "i < length A \<Longrightarrow> upd1 A j f ! i = (if i = j then f (A ! i) else A ! i)"
  by (simp add: upd1_def)

lemma nth_upd2:
  "a < length A \<Longrightarrow> b < length (A ! a) \<Longrightarrow>
   upd2 A a' b' f ! a ! b = (if a = a' \<and> b = b' then f (A ! a ! b) else A ! a ! b)"
  by (cases "a = a'") (simp_all add: upd2_def nth_upd1)

lemma accumulate_Q0:
  "shaped nb nc ns s \<Longrightarrow> i < nb \<Longrightarrow>
   Q0 (accumulate add nb nc ns th p s) ! i = Q0 s ! i + (if hits1 i p then 1 else 0)"
  by (cases p) (auto simp: accumulate_def Let_def shaped_def hits1_def nth_upd1)

lemma accumulate_QE:
  "shaped nb nc ns s \<Longrightarrow> i < nb \<Longrightarrow>
   QE (accumulate add nb nc ns th p s) ! i = QE s ! i + (if hits1 i p \<and> exceeds th p then 1 else 0)"
  by (cases p) (auto simp: accumulate_def Let_def shaped_def hits1_def exceeds_def prval_of_def nth_upd1)

lemma accumulate_Q1:
  "shaped nb nc ns s \<Longrightarrow> i < nb \<Longrightarrow>
   Q1 (accumulate add nb nc ns th p s) ! i = (if hits1 i p then add (Q1 s ! i) (prval_of p) else Q1 s ! i)"
  by (cases p) (auto simp: accumulate_def Let_def shaped_def hits1_def prval_of_def nth_upd1)

lemma accumulate_P0:
  "shaped nb nc ns s \<Longrightarrow> a < ns \<Longrightarrow> b < nc \<Longrightarrow>
   P0 (accumulate add nb nc ns th p s) ! a ! b = P0 s ! a ! b + (if hits2 a b p then 1 else 0)"
  by (cases p) (auto simp: accumulate_def Let_def shaped_def hits2_def nth_upd2 list_all_length)

lemma accumulate_PE:
  "shaped nb nc ns s \<Longrightarrow> a < ns \<Longrightarrow> b < nc \<Longrightarrow>
   PE (accumulate add nb nc ns th p s) ! a ! b =
     PE s ! a ! b + (if hits2 a b p \<and> exceeds th p then 1 else 0)"
  by (cases p) (auto simp: accumulate_def Let_def shaped_def hits2_def exceeds_def prval_of_def nth_upd2 list_all_length)

lemma accumulate_P1:
  "shaped nb nc ns s \<Longrightarrow> a < ns \<Longrightarrow> b < nc \<Longrightarrow>
   P1 (accumulate add nb nc ns th p s) ! a ! b =
     (if hits2 a b p then add (P1 s ! a ! b) (prval_of p) else P1 s ! a ! b)"
  by (cases p) (auto simp: accumulate_def Let_def shaped_def hits2_def prval_of_def nth_upd2 list_all_length)

lemma fold_Q0:
  "shaped nb nc ns s \<Longrightarrow> i < nb \<Longrightarrow>
   Q0 (fold (accumulate add nb nc ns th) ps s) ! i = Q0 s ! i + length (filter (hits1 i) ps)"
  by (induction ps arbitrary: s) (simp_all add: accumulate_Q0 shaped_accumulate)

lemma fold_QE:
  "shaped nb nc ns s \<Longrightarrow> i < nb \<Longrightarrow>
   QE (fold (accumulate add nb nc ns th) ps s) ! i =
     QE s ! i + length (filter (\<lambda>p. hits1 i p \<and> exceeds th p) ps)"
  by (induction ps arbitrary: s) (simp_all add: accumulate_QE shaped_accumulate)

lemma fold_Q1:
  "shaped nb nc ns s \<Longrightarrow> i < nb \<Longrightarrow>
   Q1 (fold (accumulate add nb nc ns th) ps s) ! i =
     fold (\<lambda>v acc. add acc v) (map prval_of (filter (hits1 i) ps)) (Q1 s ! i)"
  by (induction ps arbitrary: s) (simp_all add: accumulate_Q1 shaped_accumulate)

lemma fold_P0:
  "shaped nb nc ns s \<Longrightarrow> a < ns \<Longrightarrow> b < nc \<Longrightarrow>
   P0 (fold (accumulate add nb nc ns th) ps s) ! a ! b = P0 s ! a ! b + length (filter (hits2 a b) ps)"
  by (induction ps arbitrary: s) (simp_all add: accumulate_P0 shaped_accumulate)

lemma fold_PE:
  "shaped nb nc ns s \<Longrightarrow> a < ns \<Longrightarrow> b < nc \<Longrightarrow>
   PE (fold (accumulate add nb nc ns th) ps s) ! a ! b =
     PE s ! a ! b + length (filter (\<lambda>p. hits2 a b p \<and> exceeds th p) ps)"
  by (induction ps arbitrary: s) (simp_all add: accumulate_PE shaped_accumulate)

lemma fold_P1:
  "shaped nb nc ns s \<Longrightarrow> a < ns \<Longrightarrow> b < nc \<Longrightarrow>
   P1 (fold (accumulate add nb nc ns th) ps s) ! a ! b =
     fold (\<lambda>v acc. add acc v) (map prval_of (filter (hits2 a b) ps)) (P1 s ! a ! b)"
  by (induction ps arbitrary: s) (simp_all add: accumulate_P1 shaped_accumulate)

lemma fgt_irrefl: "\<not> fgt v v"
  by (cases v) simp_all

lemma zero_stats_cells:
  "i < nb \<Longrightarrow> Q0 (zero_stats nb nc ns) ! i = 0"
  "i < nb \<Longrightarrow> QE (zero_stats nb nc ns) ! i = 0"
  "i < nb \<Longrightarrow> Q1 (zero_stats nb nc ns) ! i = Num 0"
  "a < ns \<Longrightarrow> b < nc \<Longrightarrow> P0 (zero_stats nb nc ns) ! a ! b = 0"
  "a < ns \<Longrightarrow> b < nc \<Longrightarrow> PE (zero_stats nb nc ns) ! a ! b = 0"
  "a < ns \<Longrightarrow> b < nc \<Longrightarrow> P1 (zero_stats nb nc ns) ! a ! b = Num 0"
  by (simp_all add: zero_stats_def)

lemma all_Q0:
  "i < nb \<Longrightarrow> Q0 (accumulate_all add nb nc ns th ps) ! i = length (filter (hits1 i) ps)"
  by (simp add: accumulate_all_def fold_Q0 shaped_zero zero_stats_cells)

lemma all_QE:
  "i < nb \<Longrightarrow> QE (accumulate_all add nb nc ns th ps) ! i =
     length (filter (\<lambda>p. hits1 i p \<and> exceeds th p) ps)"
  by (simp add: accumulate_all_def fold_QE shaped_zero zero_stats_cells)

lemma all_Q1:
  "i < nb \<Longrightarrow> Q1 (accumulate_all add nb nc ns th ps) ! i =
     running_sum add (map prval_of (filter (hits1 i) ps))"
  by (simp add: accumulate_all_def fold_Q1 shaped_zero zero_stats_cells running_sum_def)

lemma all_P0:
  "a < ns \<Longrightarrow> b < nc \<Longrightarrow>
   P0 (accumulate_all add nb nc ns th ps) ! a ! b = length (filter (hits2 a b) ps)"
  by (simp add: accumulate_all_def fold_P0 shaped_zero zero_stats_cells)

lemma all_PE:
  "a < ns \<Longrightarrow> b < nc \<Longrightarrow>
   PE (accumulate_all add nb nc ns th ps) ! a ! b =
     length (filter (\<lambda>p. hits2 a b p \<and> exceeds th p) ps)"
  by (simp add: accumulate_all_def fold_PE shaped_zero zero_stats_cells)

lemma all_P1:
  "a < ns \<Longrightarrow> b < nc \<Longrightarrow>
   P1 (accumulate_all add nb nc ns th ps) ! a ! b =
     running_sum add (map prval_of (filter (hits2 a b) ps))"
  by (simp add: accumulate_all_def fold_P1 shaped_zero zero_stats_cells running_sum_def)


section \<open>Rounding, on examples\<close>

text \<open>
  The binary64 number nearest to \<open>0.1\<close>; a tie between two neighbours, resolved to the
  even significand, downwards and upwards; a number that needs no rounding.
\<close>

lemma round64_examples:
  "round64 (1 / 10) = Num (3602879701896397 / 36028797018963968)"
  "round64 9007199254740993 = Num 9007199254740992"
  "round64 9007199254740995 = Num 9007199254740996"
  "round64 (- 5 / 8) = Num (- 5 / 8)"
  by code_simp+

section \<open>Counting the points that pass a guard\<close>

lemma length_filter_conj_le: "length (filter (\<lambda>p. P p \<and> Q p) ps) \<le> length (filter P ps)"
  by (induction ps) auto

lemma hits1_sum: "(\<Sum>i<n. if hits1 i p then 1 else 0) = (if valid1 n p then 1 else (0::nat))"
proof (cases p)
  case (fields blidx capeidx subsatidx prval)
  show ?thesis
  proof (cases "valid1 n p")
    case True
    then have r: "0 \<le> blidx" "nat blidx < n" "isfinite prval"
      using fields by (auto simp: valid1_def)
    have "(\<Sum>i<n. if hits1 i p then 1 else 0) = (\<Sum>i\<in>{..<n}. if nat blidx = i then 1 else (0::nat))"
      using r fields by (intro sum.cong) (auto simp: hits1_def)
    also have "\<dots> = 1"
      using r by simp
    finally show ?thesis using True by simp
  next
    case False
    then have "\<And>i. i < n \<Longrightarrow> \<not> hits1 i p"
      using fields by (auto simp: valid1_def hits1_def)
    then show ?thesis using False by simp
  qed
qed

lemma count_cells1: "(\<Sum>i<n. length (filter (hits1 i) ps)) = length (filter (valid1 n) ps)"
proof (induction ps)
  case Nil
  show ?case by simp
next
  case (Cons p ps)
  have "(\<Sum>i<n. length (filter (hits1 i) (p # ps))) =
        (\<Sum>i<n. (if hits1 i p then 1 else 0) + length (filter (hits1 i) ps))"
    by (intro sum.cong) auto
  also have "\<dots> = (\<Sum>i<n. if hits1 i p then 1 else 0) + (\<Sum>i<n. length (filter (hits1 i) ps))"
    by (simp add: sum.distrib)
  finally show ?case
    using Cons by (simp add: hits1_sum)
qed

lemma sum_int_delta:
  "0 \<le> k \<Longrightarrow> (\<Sum>b<n. if k = int b then c else (0::nat)) = (if nat k < n then c else 0)"
proof -
  assume k: "0 \<le> k"
  have "(\<Sum>b<n. if k = int b then c else 0) = (\<Sum>b\<in>{..<n}. if nat k = b then c else 0)"
    using k by (intro sum.cong refl) auto
  then show ?thesis by simp
qed

lemma hits2_sum:
  "(\<Sum>a<ns. \<Sum>b<nc. if hits2 a b p then 1 else 0) = (if valid2 nc ns p then 1 else (0::nat))"
proof (cases p)
  case (fields blidx capeidx subsatidx prval)
  show ?thesis
  proof (cases "valid2 nc ns p")
    case True
    then have r: "0 \<le> subsatidx" "nat subsatidx < ns" "0 \<le> capeidx" "nat capeidx < nc" "isfinite prval"
      using fields by (auto simp: valid2_def)
    have "(\<Sum>a<ns. \<Sum>b<nc. if hits2 a b p then 1 else 0) =
          (\<Sum>a<ns. if subsatidx = int a then (\<Sum>b<nc. if capeidx = int b then 1 else (0::nat)) else 0)"
      using r fields by (intro sum.cong refl) (simp add: hits2_def)
    also have "\<dots> = (\<Sum>a<ns. if subsatidx = int a then 1 else 0)"
      using r by (simp add: sum_int_delta)
    also have "\<dots> = 1"
      using r by (simp add: sum_int_delta)
    finally show ?thesis using True by simp
  next
    case False
    then have "\<And>a b. a < ns \<Longrightarrow> b < nc \<Longrightarrow> \<not> hits2 a b p"
      using fields by (auto simp: valid2_def hits2_def)
    then show ?thesis using False by simp
  qed
qed

lemma count_cells2:
  "(\<Sum>a<ns. \<Sum>b<nc. length (filter (hits2 a b) ps)) = length (filter (valid2 nc ns) ps)"
proof (induction ps)
  case Nil
  show ?case by simp
next
  case (Cons p ps)
  have "(\<Sum>a<ns. \<Sum>b<nc. length (filter (hits2 a b) (p # ps))) =
        (\<Sum>a<ns. \<Sum>b<nc. (if hits2 a b p then 1 else 0) + length (filter (hits2 a b) ps))"
    by (intro sum.cong refl) auto
  also have "\<dots> = (\<Sum>a<ns. \<Sum>b<nc. if hits2 a b p then 1 else 0) +
                   (\<Sum>a<ns. \<Sum>b<nc. length (filter (hits2 a b) ps))"
    by (simp add: sum.distrib)
  finally show ?case
    using Cons by (simp add: hits2_sum)
qed

lemma sum_list_nth_lessThan: "sum_list xs = (\<Sum>i<length xs. xs ! (i::nat))" for xs :: "nat list"
  by (simp add: sum_list_sum_nth atLeast0LessThan)

lemma sum_list_rows:
  fixes A :: "nat list list"
  assumes "length A = ns" "list_all (\<lambda>r. length r = nc) A"
  shows "sum_list (map sum_list A) = (\<Sum>a<ns. \<Sum>b<nc. A ! a ! b)"
proof -
  have "sum_list (map sum_list A) = (\<Sum>a<length (map sum_list A). map sum_list A ! a)"
    by (rule sum_list_nth_lessThan)
  also have "\<dots> = (\<Sum>a<ns. sum_list (A ! a))"
    using assms by simp
  also have "\<dots> = (\<Sum>a<ns. \<Sum>b<nc. A ! a ! b)"
    using assms by (intro sum.cong refl) (simp add: sum_list_nth_lessThan list_all_length)
  finally show ?thesis .
qed

lemma total_Q0:
  "sum_list (Q0 (accumulate_all add nb nc ns th ps)) = length (filter (valid1 nb) ps)"
proof -
  have len: "length (Q0 (accumulate_all add nb nc ns th ps)) = nb"
    using shaped_accumulate_all [of nb nc ns add th ps] by (simp add: shaped_def)
  have "sum_list (Q0 (accumulate_all add nb nc ns th ps)) =
        (\<Sum>i<nb. Q0 (accumulate_all add nb nc ns th ps) ! i)"
    using len by (simp add: sum_list_nth_lessThan)
  also have "\<dots> = (\<Sum>i<nb. length (filter (hits1 i) ps))"
    by (intro sum.cong refl) (simp add: all_Q0)
  finally show ?thesis by (simp add: count_cells1)
qed

lemma total_P0:
  "sum_list (map sum_list (P0 (accumulate_all add nb nc ns th ps))) = length (filter (valid2 nc ns) ps)"
proof -
  have sh: "shaped nb nc ns (accumulate_all add nb nc ns th ps)"
    by (rule shaped_accumulate_all)
  have "sum_list (map sum_list (P0 (accumulate_all add nb nc ns th ps))) =
        (\<Sum>a<ns. \<Sum>b<nc. P0 (accumulate_all add nb nc ns th ps) ! a ! b)"
    using sh by (intro sum_list_rows) (simp_all add: shaped_def)
  also have "\<dots> = (\<Sum>a<ns. \<Sum>b<nc. length (filter (hits2 a b) ps))"
    by (intro sum.cong refl) (simp add: all_P0)
  finally show ?thesis by (simp add: count_cells2)
qed

lemma Q0_threshold_free:
  "Q0 (accumulate_all add nb nc ns th ps) = Q0 (accumulate_all add nb nc ns th' ps)"
proof (rule nth_equalityI)
  show "length (Q0 (accumulate_all add nb nc ns th ps)) = length (Q0 (accumulate_all add nb nc ns th' ps))"
    using shaped_accumulate_all [of nb nc ns add th ps] shaped_accumulate_all [of nb nc ns add th' ps]
    by (simp add: shaped_def)
next
  fix i assume "i < length (Q0 (accumulate_all add nb nc ns th ps))"
  then have "i < nb"
    using shaped_accumulate_all [of nb nc ns add th ps] by (simp add: shaped_def)
  then show "Q0 (accumulate_all add nb nc ns th ps) ! i = Q0 (accumulate_all add nb nc ns th' ps) ! i"
    by (simp add: all_Q0)
qed

lemma rows_eqI:
  assumes "length A = ns" "length B = ns"
    "list_all (\<lambda>r. length r = nc) A" "list_all (\<lambda>r. length r = nc) B"
    "\<And>a b. a < ns \<Longrightarrow> b < nc \<Longrightarrow> A ! a ! b = B ! a ! b"
  shows "A = B"
proof (rule nth_equalityI)
  show "length A = length B" using assms by simp
next
  fix a assume a: "a < length A"
  show "A ! a = B ! a"
  proof (rule nth_equalityI)
    show "length (A ! a) = length (B ! a)"
      using a assms by (simp add: list_all_length)
  next
    fix b assume "b < length (A ! a)"
    then show "A ! a ! b = B ! a ! b"
      using a assms by (simp add: list_all_length)
  qed
qed

lemma P0_threshold_free:
  "P0 (accumulate_all add nb nc ns th ps) = P0 (accumulate_all add nb nc ns th' ps)"
  using shaped_accumulate_all [of nb nc ns add th ps] shaped_accumulate_all [of nb nc ns add th' ps]
  by (intro rows_eqI [of _ ns _ nc]) (simp_all add: shaped_def all_P0)

lemma half_finite:
  assumes "length ps = 100" "length (filter (\<lambda>p. \<not> isfinite (prval_of p)) ps) = 50"
    "\<forall>p\<in>set ps. isfinite (prval_of p) \<longrightarrow> valid1 nb p"
  shows "length (filter (valid1 nb) ps) = 50"
proof -
  have "filter (valid1 nb) ps = filter (\<lambda>p. isfinite (prval_of p)) ps"
    using assms(3) by (intro filter_cong refl) (auto simp: valid1_def prval_of_def)
  moreover have "length (filter (\<lambda>p. isfinite (prval_of p)) ps) +
      length (filter (\<lambda>p. \<not> isfinite (prval_of p)) ps) = length ps"
    by (rule sum_length_filter_compl)
  ultimately show ?thesis using assms(1,2) by simp
qed

section \<open>Checked accesses never fail\<close>

lemma upd1_chk_Some:
  "0 \<le> i \<Longrightarrow> i < int (length A) \<Longrightarrow> upd1_chk A i f = Some (upd1 A (nat i) f)"
  by (simp add: upd1_chk_def upd1_def)

lemma upd2_chk_Some:
  "0 \<le> a \<Longrightarrow> a < int (length A) \<Longrightarrow> 0 \<le> b \<Longrightarrow> b < int (length (A ! nat a)) \<Longrightarrow>
   upd2_chk A a b f = Some (upd2 A (nat a) (nat b) f)"
  by (simp add: upd2_chk_def upd2_def upd1_chk_Some)

lemma row_length: "list_all (\<lambda>r. length r = n) A \<Longrightarrow> 0 \<le> a \<Longrightarrow> a < int (length A) \<Longrightarrow> length (A ! nat a) = n"
  by (simp add: list_all_length)

lemma accumulate_chk_Some:
  assumes "shaped nb nc ns s"
  shows "accumulate_chk add nb nc ns th p s = Some (accumulate add nb nc ns th p s)"
proof (cases p)
  case (fields blidx capeidx subsatidx prval)
  show ?thesis
    using assms unfolding fields accumulate_chk_def accumulate_def shaped_def
    by (auto simp: upd1_chk_Some upd2_chk_Some row_length Let_def)
qed

lemma fold_chk_Some:
  assumes "\<And>x s. I s \<Longrightarrow> f x s = Some (g x s) \<and> I (g x s)"
  shows "I s \<Longrightarrow> fold_chk f xs s = Some (fold g xs s) \<and> I (fold g xs s)"
  by (induction xs arbitrary: s) (simp_all add: assms)

lemma shaped2_zero: "shaped2 nb nc ns (zero_stats2 nb nc ns)"
  by (simp add: shaped2_def shaped_def zero_stats2_def list_all_iff)

lemma shaped2_accumulate2:
  "shaped2 nb nc ns s \<Longrightarrow> shaped2 nb nc ns (accumulate2 nb nc ns th p s)"
  by (cases p)
    (auto simp: shaped2_def shaped_def accumulate2_def Let_def upd1_def list_all_upd2 length_upd2)

lemma accumulate2_chk_Some:
  assumes "shaped2 nb nc ns s"
  shows "accumulate2_chk nb nc ns th p s = Some (accumulate2 nb nc ns th p s)"
proof (cases p)
  case (fields blidx capeidx subsatidx prval)
  show ?thesis
    using assms unfolding fields accumulate2_chk_def accumulate2_def shaped2_def shaped_def
    by (auto simp: upd1_chk_Some upd2_chk_Some row_length Let_def)
qed

section \<open>The nested iteration visits the points in flat order\<close>

lemma fold_offset: "fold (\<lambda>j. g (off + j)) [0..<m] s = fold g [off..<off + m] s"
proof -
  have "[off..<off + m] = map (\<lambda>j. off + j) [0..<m]"
    by (induction m) simp_all
  then show ?thesis
    by (simp add: fold_map comp_def)
qed

lemma fold_blocks:
  "fold (\<lambda>k. fold g [off + k * m..<off + k * m + m]) [0..<n] s = fold g [off..<off + n * m] s"
proof (induction n)
  case 0
  show ?case by simp
next
  case (Suc n)
  have A: "[off..<off + n * m + m] = [off..<off + n * m] @ [off + n * m..<off + n * m + m]"
    by (rule upt_add_eq_append) simp
  have e: "off + Suc n * m = off + n * m + m"
    by simp
  have "fold (\<lambda>k. fold g [off + k * m..<off + k * m + m]) [0..<Suc n] s =
        fold g [off + n * m..<off + n * m + m]
          (fold (\<lambda>k. fold g [off + k * m..<off + k * m + m]) [0..<n] s)"
    by simp
  also have "\<dots> = fold g [off + n * m..<off + n * m + m] (fold g [off..<off + n * m] s)"
    by (simp only: Suc)
  also have "\<dots> = fold g ([off..<off + n * m] @ [off + n * m..<off + n * m + m]) s"
    by simp
  also have "\<dots> = fold g [off..<off + Suc n * m] s"
    by (simp only: A [symmetric] e)
  finally show ?case .
qed

lemma triple_loop_flat:
  "fold (\<lambda>t. fold (\<lambda>la. fold (\<lambda>lo. g ((t * nlat + la) * nlon + lo)) [0..<nlon]) [0..<nlat]) [0..<ntime] s
   = fold g [0..<ntime * nlat * nlon] s"
proof -
  have inner: "fold (\<lambda>lo. g ((t * nlat + la) * nlon + lo)) [0..<nlon] =
      fold g [t * (nlat * nlon) + la * nlon..<t * (nlat * nlon) + la * nlon + nlon]" for t la
    using fold_offset [of g "(t * nlat + la) * nlon" nlon] by (simp add: fun_eq_iff algebra_simps)
  have middle: "fold (\<lambda>la. fold (\<lambda>lo. g ((t * nlat + la) * nlon + lo)) [0..<nlon]) [0..<nlat] =
      fold g [0 + t * (nlat * nlon)..<0 + t * (nlat * nlon) + nlat * nlon]" for t
    using fold_blocks [of g "t * (nlat * nlon)" nlon nlat] by (simp add: inner fun_eq_iff)
  show ?thesis
    using fold_blocks [of g 0 "nlat * nlon" ntime s] by (simp add: middle mult.assoc)
qed

lemma shared_accumulate2:
  "shared (accumulate2 nb nc ns th p s) = accumulate fadd nb nc ns th p (shared s)"
  by (cases p) (simp add: shared_def accumulate2_def accumulate_def Let_def conj_commute)

lemma shared_fold:
  "shared (fold (\<lambda>k. accumulate2 nb nc ns th (pt k)) ks s) =
   fold (accumulate fadd nb nc ns th) (map pt ks) (shared s)"
  by (induction ks arbitrary: s) (simp_all add: shared_accumulate2)

lemma shared_zero: "shared (zero_stats2 nb nc ns) = zero_stats nb nc ns"
  by (simp add: shared_def zero_stats2_def zero_stats_def)

section \<open>Reordering the points\<close>


lemma shaped_lengths:
  assumes "shaped nb nc ns s"
  shows "length (Q0 s) = nb" "length (QE s) = nb" "length (Q1 s) = nb"
    "length (P0 s) = ns" "length (PE s) = ns" "length (P1 s) = ns"
    "list_all (\<lambda>r. length r = nc) (P0 s)" "list_all (\<lambda>r. length r = nc) (PE s)"
    "list_all (\<lambda>r. length r = nc) (P1 s)"
  using assms by (simp_all add: shaped_def)

lemmas all_lengths = shaped_lengths [OF shaped_accumulate_all]








section \<open>Merging the results of chunks\<close>

lemma nth_map2: "i < length xs \<Longrightarrow> i < length ys \<Longrightarrow> map2 f xs ys ! i = f (xs ! i) (ys ! i)"
  by simp

lemma shaped_merge:
  assumes "shaped nb nc ns s" "shaped nb nc ns t"
  shows "shaped nb nc ns (merge_stats add s t)"
  using assms by (auto simp: shaped_def merge_stats_def list_all_length)







lemma shaped_fold_merge:
  "shaped nb nc ns s \<Longrightarrow>
   shaped nb nc ns (fold (\<lambda>r acc. merge_stats add acc r)
      (map (accumulate_all add nb nc ns th) pss) s)"
  by (induction pss arbitrary: s) (simp_all add: shaped_merge shaped_accumulate_all)















section \<open>Truncation toward zero\<close>





















section \<open>The kernel's contract\<close>

text \<open>
  C2. After the pass, cell \<open>i\<close> of the 1-D arrays holds: in \<open>Q0\<close> the number of
  points whose 1-D index is exactly \<open>i\<close> and whose precipitation value is finite, in
  \<open>Q1\<close> the float64 sum of their values, added in point order starting from zero, and in
  \<open>QE\<close> the number of them whose value is strictly greater than the threshold. Cell
  \<open>(a, b)\<close> of the 2-D arrays holds the same three quantities for the points whose
  \<open>subsat\<close> index is \<open>a\<close>, whose \<open>cape\<close> index is \<open>b\<close> and whose value is finite. The
  1-D test does not look at the 2-D indices, nor the 2-D test at the 1-D index. A value
  equal to the threshold does not exceed it.
\<close>

theorem fast_binned_stats_cells:
  "(let s = fast_binned_stats blidxs capeidxs subsatidxs prdata nblbins ncapebins nsubsatbins prthresh;
        ps = points blidxs capeidxs subsatidxs prdata
    in shaped nblbins ncapebins nsubsatbins s \<and>
       (\<forall>i<nblbins.
          Q0 s ! i = length (filter (hits1 i) ps) \<and>
          Q1 s ! i = running_sum fadd (map prval_of (filter (hits1 i) ps)) \<and>
          QE s ! i = length (filter (\<lambda>p. hits1 i p \<and> exceeds prthresh p) ps)) \<and>
       (\<forall>a<nsubsatbins. \<forall>b<ncapebins.
          P0 s ! a ! b = length (filter (hits2 a b) ps) \<and>
          P1 s ! a ! b = running_sum fadd (map prval_of (filter (hits2 a b) ps)) \<and>
          PE s ! a ! b = length (filter (\<lambda>p. hits2 a b p \<and> exceeds prthresh p) ps)) \<and>
       (\<forall>p. prval_of p = prthresh \<longrightarrow> \<not> exceeds prthresh p))"
  by (simp add: Let_def fast_binned_stats_def binned_stats_with_def shaped_accumulate_all
      all_Q0 all_QE all_Q1 all_P0 all_PE all_P1 exceeds_def fgt_irrefl)

theorem fast_binned_stats_cells_witness:
  "(0::nat) < 2 \<and>
   Q0 (fast_binned_stats [0, 1, 0, -1, 0, 2] [1, 0, 1, 0, 7, 0] [0, 1, 0, 1, 0, 0]
         [Num 1, Num (1/4), Num (1/2), Num 3, NaN, Num 5] 2 2 2 (Num (1/4))) ! 0 = 2 \<and>
   Q1 (fast_binned_stats [0, 1, 0, -1, 0, 2] [1, 0, 1, 0, 7, 0] [0, 1, 0, 1, 0, 0]
         [Num 1, Num (1/4), Num (1/2), Num 3, NaN, Num 5] 2 2 2 (Num (1/4))) ! 0 = Num (3/2) \<and>
   QE (fast_binned_stats [0, 1, 0, -1, 0, 2] [1, 0, 1, 0, 7, 0] [0, 1, 0, 1, 0, 0]
         [Num 1, Num (1/4), Num (1/2), Num 3, NaN, Num 5] 2 2 2 (Num (1/4))) ! 1 = 0 \<and>
   P0 (fast_binned_stats [0, 1, 0, -1, 0, 2] [1, 0, 1, 0, 7, 0] [0, 1, 0, 1, 0, 0]
         [Num 1, Num (1/4), Num (1/2), Num 3, NaN, Num 5] 2 2 2 (Num (1/4))) ! 1 ! 0 = 2"
proof -
  let ?ps = "points [0, 1, 0, -1, 0, 2] [1, 0, 1, 0, 7, 0] [0, 1, 0, 1, 0, 0]
         [Num 1, Num (1/4), Num (1/2), Num 3, NaN, Num 5]"
  have e1: "length (filter (hits1 0) ?ps) = 2" by code_simp
  have e2: "running_sum fadd (map prval_of (filter (hits1 0) ?ps)) = Num (3/2)" by code_simp
  have e3: "length (filter (\<lambda>p. hits1 1 p \<and> exceeds (Num (1/4)) p) ?ps) = 0" by code_simp
  have e4: "length (filter (hits2 1 0) ?ps) = 2" by code_simp
  show ?thesis
    using fast_binned_stats_cells [of "[0, 1, 0, -1, 0, 2]" "[1, 0, 1, 0, 7, 0]" "[0, 1, 0, 1, 0, 0]"
         "[Num 1, Num (1/4), Num (1/2), Num 3, NaN, Num 5]" 2 2 2 "Num (1/4)"] e1 e2 e3 e4
    by (simp add: Let_def)
qed
text \<open>
  C8. In every bin the exceedance count is at most the count: \<open>QE[i] \<le> Q0[i]\<close> for every
  1-D bin and \<open>PE[a,b] \<le> P0[a,b]\<close> for every 2-D cell, for every input and every threshold
  (non-negative or not).
\<close>

theorem exceedance_le_count:
  "(let s = fast_binned_stats blidxs capeidxs subsatidxs prdata nblbins ncapebins nsubsatbins prthresh
    in (\<forall>i<nblbins. QE s ! i \<le> Q0 s ! i) \<and>
       (\<forall>a<nsubsatbins. \<forall>b<ncapebins. PE s ! a ! b \<le> P0 s ! a ! b))"
  by (simp add: Let_def fast_binned_stats_def binned_stats_with_def
      all_Q0 all_QE all_P0 all_PE length_filter_conj_le)

theorem exceedance_le_count_witness:
  "(0::nat) < 2 \<and>
   QE (fast_binned_stats [0, 1, 0, -1, 0, 2] [1, 0, 1, 0, 7, 0] [0, 1, 0, 1, 0, 0]
         [Num 1, Num (1/4), Num (1/2), Num 3, NaN, Num 5] 2 2 2 (Num (1/4))) ! 1
   \<le> Q0 (fast_binned_stats [0, 1, 0, -1, 0, 2] [1, 0, 1, 0, 7, 0] [0, 1, 0, 1, 0, 0]
         [Num 1, Num (1/4), Num (1/2), Num 3, NaN, Num 5] 2 2 2 (Num (1/4))) ! 1 \<and>
   PE (fast_binned_stats [0, 1, 0, -1, 0, 2] [1, 0, 1, 0, 7, 0] [0, 1, 0, 1, 0, 0]
         [Num 1, Num (1/4), Num (1/2), Num 3, NaN, Num 5] 2 2 2 (Num (1/4))) ! 1 ! 0
   \<le> P0 (fast_binned_stats [0, 1, 0, -1, 0, 2] [1, 0, 1, 0, 7, 0] [0, 1, 0, 1, 0, 0]
         [Num 1, Num (1/4), Num (1/2), Num 3, NaN, Num 5] 2 2 2 (Num (1/4))) ! 1 ! 0"
  using exceedance_le_count [where blidxs = "[0, 1, 0, -1, 0, 2]" and capeidxs = "[1, 0, 1, 0, 7, 0]"
      and subsatidxs = "[0, 1, 0, 1, 0, 0]"
      and prdata = "[Num 1, Num (1/4), Num (1/2), Num 3, NaN, Num 5]"
      and nblbins = 2 and ncapebins = 2 and nsubsatbins = 2 and prthresh = "Num (1/4)"]
  by (simp add: Let_def)

text \<open>
  C7. The sum of \<open>Q0\<close> over the 1-D bins is the number of points with a finite
  precipitation value and a 1-D index in range, and the sum of \<open>P0\<close> over the 2-D cells is
  the number of points with a finite value and both 2-D indices in range. \<open>Q0\<close> and \<open>P0\<close>
  are the same arrays for any two thresholds. For 100 points of which 50 have a
  non-finite value and all others a 1-D index in range, the sum of \<open>Q0\<close> is 50.
\<close>

theorem count_conservation:
  "(let ps = points blidxs capeidxs subsatidxs prdata;
        s = fast_binned_stats blidxs capeidxs subsatidxs prdata nblbins ncapebins nsubsatbins prthresh;
        s' = fast_binned_stats blidxs capeidxs subsatidxs prdata nblbins ncapebins nsubsatbins prthresh'
    in sum_list (Q0 s) = length (filter (valid1 nblbins) ps) \<and>
       sum_list (map sum_list (P0 s)) = length (filter (valid2 ncapebins nsubsatbins) ps) \<and>
       Q0 s' = Q0 s \<and> P0 s' = P0 s \<and>
       (length ps = 100 \<and> length (filter (\<lambda>p. \<not> isfinite (prval_of p)) ps) = 50 \<and>
        (\<forall>p\<in>set ps. isfinite (prval_of p) \<longrightarrow> valid1 nblbins p)
        \<longrightarrow> sum_list (Q0 s) = 50))"
  unfolding Let_def fast_binned_stats_def binned_stats_with_def total_Q0 total_P0
  using Q0_threshold_free [of fadd nblbins ncapebins nsubsatbins prthresh'
          "points blidxs capeidxs subsatidxs prdata" prthresh]
        P0_threshold_free [of fadd nblbins ncapebins nsubsatbins prthresh'
          "points blidxs capeidxs subsatidxs prdata" prthresh]
  by (auto intro: half_finite)

theorem count_conservation_witness:
  "length (points (replicate 100 0) (replicate 100 0) (replicate 100 0)
             (replicate 50 NaN @ replicate 50 (Num 1))) = 100 \<and>
   length (filter (\<lambda>p. \<not> isfinite (prval_of p))
             (points (replicate 100 0) (replicate 100 0) (replicate 100 0)
                (replicate 50 NaN @ replicate 50 (Num 1)))) = 50 \<and>
   sum_list (Q0 (fast_binned_stats (replicate 100 0) (replicate 100 0) (replicate 100 0)
                (replicate 50 NaN @ replicate 50 (Num 1)) 1 1 1 (Num (1/4)))) = 50"
proof -
  let ?ps = "points (replicate 100 0) (replicate 100 0) (replicate 100 0)
                (replicate 50 NaN @ replicate 50 (Num 1))"
  have h1: "length ?ps = 100" by code_simp
  have h2: "length (filter (\<lambda>p. \<not> isfinite (prval_of p)) ?ps) = 50" by code_simp
  have h3: "\<forall>p\<in>set ?ps. isfinite (prval_of p) \<longrightarrow> valid1 1 p" by code_simp
  show ?thesis
    using count_conservation [of "replicate 100 0" "replicate 100 0" "replicate 100 0"
        "replicate 50 NaN @ replicate 50 (Num 1)" 1 1 1 "Num (1/4)" "Num 0"] h1 h2 h3
    unfolding Let_def by blast
qed

text \<open>
  C10. With arbitrary integers in the index arrays and arbitrary precipitation values,
  no read-modify-write of an accumulator leaves the array: the kernel with checked
  accesses returns, and returns what the kernel returns. The same holds for the loop of
  the earlier revision, with its two additional arrays.
\<close>

theorem accumulator_accesses_in_bounds:
  "fast_binned_stats_chk blidxs capeidxs subsatidxs prdata nblbins ncapebins nsubsatbins prthresh =
     Some (fast_binned_stats blidxs capeidxs subsatidxs prdata nblbins ncapebins nsubsatbins prthresh) \<and>
   calc_binned_stats_loop_chk ntime nlat nlon blidxs capeidxs subsatidxs prdata
       nblbins ncapebins nsubsatbins prthresh =
     Some (calc_binned_stats_loop ntime nlat nlon blidxs capeidxs subsatidxs prdata
       nblbins ncapebins nsubsatbins prthresh)"
proof
  have "fold_chk (accumulate_chk fadd nblbins ncapebins nsubsatbins prthresh)
          (points blidxs capeidxs subsatidxs prdata) (zero_stats nblbins ncapebins nsubsatbins) =
        Some (fold (accumulate fadd nblbins ncapebins nsubsatbins prthresh)
          (points blidxs capeidxs subsatidxs prdata) (zero_stats nblbins ncapebins nsubsatbins)) \<and>
        shaped nblbins ncapebins nsubsatbins
          (fold (accumulate fadd nblbins ncapebins nsubsatbins prthresh)
          (points blidxs capeidxs subsatidxs prdata) (zero_stats nblbins ncapebins nsubsatbins))"
    by (rule fold_chk_Some [where I = "shaped nblbins ncapebins nsubsatbins"])
       (simp_all add: accumulate_chk_Some shaped_accumulate shaped_zero)
  then show "fast_binned_stats_chk blidxs capeidxs subsatidxs prdata nblbins ncapebins nsubsatbins prthresh =
     Some (fast_binned_stats blidxs capeidxs subsatidxs prdata nblbins ncapebins nsubsatbins prthresh)"
    by (simp add: fast_binned_stats_chk_def fast_binned_stats_def binned_stats_with_def
        accumulate_all_def)
next
  let ?I = "shaped2 nblbins ncapebins nsubsatbins"
  let ?pt = "point_at nlat nlon blidxs capeidxs subsatidxs prdata"
  let ?c = "\<lambda>t la lo. accumulate2_chk nblbins ncapebins nsubsatbins prthresh (?pt t la lo)"
  let ?u = "\<lambda>t la lo. accumulate2 nblbins ncapebins nsubsatbins prthresh (?pt t la lo)"
  have lon: "fold_chk (?c t la) los s = Some (fold (?u t la) los s) \<and> ?I (fold (?u t la) los s)"
    if "?I s" for t la los s
    using that by (rule fold_chk_Some [where I = ?I, rotated])
      (simp add: accumulate2_chk_Some shaped2_accumulate2)
  have lat: "fold_chk (\<lambda>la. fold_chk (?c t la) los) las s =
        Some (fold (\<lambda>la. fold (?u t la) los) las s) \<and> ?I (fold (\<lambda>la. fold (?u t la) los) las s)"
    if "?I s" for t las los s
    using that by (rule fold_chk_Some [where I = ?I, rotated]) (simp add: lon)
  have "fold_chk (\<lambda>t. fold_chk (\<lambda>la. fold_chk (?c t la) los) las) ts s =
        Some (fold (\<lambda>t. fold (\<lambda>la. fold (?u t la) los) las) ts s) \<and>
        ?I (fold (\<lambda>t. fold (\<lambda>la. fold (?u t la) los) las) ts s)"
    if "?I s" for ts las los s
    using that by (rule fold_chk_Some [where I = ?I, rotated]) (simp add: lat)
  then show "calc_binned_stats_loop_chk ntime nlat nlon blidxs capeidxs subsatidxs prdata
       nblbins ncapebins nsubsatbins prthresh =
     Some (calc_binned_stats_loop ntime nlat nlon blidxs capeidxs subsatidxs prdata
       nblbins ncapebins nsubsatbins prthresh)"
    by (simp add: calc_binned_stats_loop_chk_def calc_binned_stats_loop_def shaped2_zero)
qed

theorem accumulator_accesses_in_bounds_witness:
  "fast_binned_stats_chk [5, -3, 0] [0, 9, -1] [-2, 0, 4] [Num 1, Num 2, PosInf] 2 2 2 (Num 0) \<noteq> None \<and>
   calc_binned_stats_loop_chk 1 1 3 [5, -3, 0] [0, 9, -1] [-2, 0, 4] [Num 1, Num 2, PosInf]
     2 2 2 (Num 0) \<noteq> None"
  using accumulator_accesses_in_bounds [where blidxs = "[5, -3, 0]" and capeidxs = "[0, 9, -1]"
      and subsatidxs = "[-2, 0, 4]" and prdata = "[Num 1, Num 2, PosInf]"
      and nblbins = 2 and ncapebins = 2 and nsubsatbins = 2 and prthresh = "Num 0"
      and ntime = 1 and nlat = 1 and nlon = 3]
  by simp

text \<open>
  C6. Given the same index arrays, the same precipitation values, the same bin counts
  and the same threshold, the triple loop of the earlier revision and the flat loop of the
  accelerated kernel return the same \<open>Q0\<close>, \<open>QE\<close>, \<open>Q1\<close>, \<open>P0\<close>, \<open>PE\<close> and \<open>P1\<close>. The
  arrays have \<open>ntime * nlat * nlon\<close> elements, the size of an array of that shape.
\<close>

theorem loop_revisions_agree:
  assumes "length prdata = ntime * nlat * nlon"
  shows "shared (calc_binned_stats_loop ntime nlat nlon blidxs capeidxs subsatidxs prdata
            nblbins ncapebins nsubsatbins prthresh) =
         fast_binned_stats blidxs capeidxs subsatidxs prdata nblbins ncapebins nsubsatbins prthresh"
proof -
  let ?pt = "\<lambda>k. (blidxs ! k, capeidxs ! k, subsatidxs ! k, prdata ! k)"
  have "calc_binned_stats_loop ntime nlat nlon blidxs capeidxs subsatidxs prdata
            nblbins ncapebins nsubsatbins prthresh =
        fold (\<lambda>k. accumulate2 nblbins ncapebins nsubsatbins prthresh (?pt k))
          [0..<ntime * nlat * nlon] (zero_stats2 nblbins ncapebins nsubsatbins)"
    unfolding calc_binned_stats_loop_def point_at_def at3_def
    by (rule triple_loop_flat [where g = "\<lambda>k. accumulate2 nblbins ncapebins nsubsatbins prthresh (?pt k)"])
  then show ?thesis
    using assms
    by (simp add: shared_fold shared_zero fast_binned_stats_def binned_stats_with_def
        accumulate_all_def points_def)
qed

theorem loop_revisions_agree_witness:
  "length [Num 1, NaN, Num (1/2), Num 3, Num 2, Num (1/4), PosInf, Num 7] = 2 * 2 * 2 \<and>
   shared (calc_binned_stats_loop 2 2 2 [0, 1, 0, -1, 0, 2, 1, 1] [1, 0, 1, 0, 7, 0, 0, 1]
            [0, 1, 0, 1, 0, 0, 1, 1] [Num 1, NaN, Num (1/2), Num 3, Num 2, Num (1/4), PosInf, Num 7]
            2 2 2 (Num (1/4))) =
   fast_binned_stats [0, 1, 0, -1, 0, 2, 1, 1] [1, 0, 1, 0, 7, 0, 0, 1]
            [0, 1, 0, 1, 0, 0, 1, 1] [Num 1, NaN, Num (1/2), Num 3, Num 2, Num (1/4), PosInf, Num 7]
            2 2 2 (Num (1/4))"
  using loop_revisions_agree [where prdata = "[Num 1, NaN, Num (1/2), Num 3, Num 2, Num (1/4), PosInf, Num 7]"
      and ntime = 2 and nlat = 2 and nlon = 2]
  by simp

section \<open>Order of accumulation\<close>





section \<open>Index computation\<close>






section \<open>Bin edges\<close>




section \<open>Label slices on increasing coordinates\<close>




section \<open>The iterations of the aggregator\<close>






lemma map_of_distinct_nth:
  assumes "distinct (map fst regions)" "r < length regions"
  shows "map_of regions (fst (regions ! r)) = Some (snd (regions ! r))"
  using assms by (simp add: map_of_eq_Some_iff [OF assms(1)])



section \<open>The aggregated product\<close>




end
